theory Spec2Isabelle
  imports Main "HOL-Library.AList"
begin

section \<open>Sockets, exceptions and envelopes\<close>

text \<open>
  A client socket is identified by a number. The server never reads the state of the
  peer; it only learns it from what \<^verbatim>\<open>sendall\<close> does, so the condition of every
  connection is a component of the state: \<open>Up\<close> accepts a write, a connection whose peer
  is gone raises \<^verbatim>\<open>BrokenPipeError\<close> or \<^verbatim>\<open>ConnectionResetError\<close>, and a socket the
  server has closed itself raises \<^verbatim>\<open>OSError\<close>.
\<close>

type_synonym sock = nat

datatype conn = Up | PeerClosed | PeerReset | LocalClosed

datatype error =
  BrokenPipeError | ConnectionResetError | OSError | UnicodeDecodeError | JSONDecodeError
| KeyError | TypeError

text \<open>
  The dictionary \<^verbatim>\<open>msg_data\<close> built by \<^verbatim>\<open>message_to_json\<close>. \<^verbatim>\<open>json.dumps\<close> and
  \<^verbatim>\<open>encode('utf-8')\<close> are library code: the bytes on the wire are represented by the
  dictionary they encode.
\<close>

record envelope =
  e_status :: string
  e_sender :: string
  e_receiver :: string
  e_text :: string

definition message_to_json :: "string \<Rightarrow> string \<Rightarrow> string \<Rightarrow> string \<Rightarrow> envelope" where
  "message_to_json status sender receiver message =
     \<lparr>e_status = status, e_sender = sender, e_receiver = receiver, e_text = message\<rparr>"

section \<open>The server state\<close>

text \<open>
  \<^verbatim>\<open>clients\<close> is a Python dictionary that \<^verbatim>\<open>broadcast_system_message\<close> iterates, so
  its insertion order is kept: an association list, written with \<open>AList.update\<close>
  (replace in place, else append) and \<open>AList.delete\<close>. \<^verbatim>\<open>groups\<close> is only ever
  looked up by key: a map from the group name to the Python list of its members.
  \<open>wire c\<close> is everything the server has written to socket \<open>c\<close>, oldest first.
\<close>

record server =
  clients :: "(string \<times> sock) list"
  groups :: "string \<rightharpoonup> string list"
  conn :: "sock \<Rightarrow> conn"
  wire :: "sock \<Rightarrow> envelope list"

definition initial :: server where
  "initial = \<lparr>clients = [], groups = Map.empty, conn = (\<lambda>c. Up), wire = (\<lambda>c. [])\<rparr>"

text \<open>Every operation returns the exception it raised, if any, and the state it left.\<close>

type_synonym outcome = "error option \<times> server"

fun send_error :: "conn \<Rightarrow> error option" where
  "send_error Up = None"
| "send_error PeerClosed = Some BrokenPipeError"
| "send_error PeerReset = Some ConnectionResetError"
| "send_error LocalClosed = Some OSError"

definition sendall :: "server \<Rightarrow> sock \<Rightarrow> envelope \<Rightarrow> outcome" where
  "sendall s c m =
     (case send_error (conn s c) of
        Some e \<Rightarrow> (Some e, s)
      | None \<Rightarrow> (None, s\<lparr>wire := (wire s)(c := wire s c @ [m])\<rparr>))"

section \<open>The Session Registry (lines 78-79, 96-99 and the lookups of \<^verbatim>\<open>clients\<close>)\<close>

definition register :: "server \<Rightarrow> string \<Rightarrow> sock \<Rightarrow> server" where
  "register s username c = s\<lparr>clients := AList.update username c (clients s)\<rparr>"

definition deregister :: "server \<Rightarrow> string \<Rightarrow> server" where
  "deregister s username =
     (if username \<in> dom (map_of (clients s))
      then s\<lparr>clients := AList.delete username (clients s)\<rparr> else s)"

definition lookup :: "server \<Rightarrow> string \<Rightarrow> sock option" where
  "lookup s identity = map_of (clients s) identity"

definition close :: "server \<Rightarrow> sock \<Rightarrow> server" where
  "close s c = s\<lparr>conn := (conn s)(c := LocalClosed)\<rparr>"

section \<open>Notices and the router\<close>

definition send_system_message :: "server \<Rightarrow> string \<Rightarrow> string \<Rightarrow> outcome" where
  "send_system_message s user message =
     (if user \<in> dom (map_of (clients s))
      then sendall s (the (map_of (clients s) user))
             (message_to_json ''system'' ''SERVER'' user message)
      else (None, s))"

text \<open>The loop of \<^verbatim>\<open>broadcast_system_message\<close> over \<^verbatim>\<open>clients.values()\<close>.\<close>

fun send_each :: "server \<Rightarrow> sock list \<Rightarrow> envelope \<Rightarrow> outcome" where
  "send_each s [] m = (None, s)"
| "send_each s (c # cs) m =
     (case sendall s c m of
        (Some e, s') \<Rightarrow> (Some e, s')
      | (None, s') \<Rightarrow> send_each s' cs m)"

definition broadcast_system_message :: "server \<Rightarrow> string \<Rightarrow> outcome" where
  "broadcast_system_message s message =
     send_each s (map snd (clients s)) (message_to_json ''system'' ''SERVER'' ''ALL'' message)"

definition send_private_message :: "server \<Rightarrow> string \<Rightarrow> string \<Rightarrow> string \<Rightarrow> outcome" where
  "send_private_message s sender receiver text =
     (if receiver \<in> dom (map_of (clients s))
      then sendall s (the (map_of (clients s) receiver))
             (message_to_json ''private'' sender receiver text)
      else send_system_message s sender (''User '' @ receiver @ '' not found.''))"

text \<open>The loop of \<^verbatim>\<open>send_group_message\<close> over the members of the group.\<close>

fun group_loop :: "server \<Rightarrow> string \<Rightarrow> string list \<Rightarrow> envelope \<Rightarrow> outcome" where
  "group_loop s sender [] m = (None, s)"
| "group_loop s sender (user # users) m =
     (if user \<noteq> sender \<and> user \<in> dom (map_of (clients s))
      then (case sendall s (the (map_of (clients s) user)) m of
              (Some e, s') \<Rightarrow> (Some e, s')
            | (None, s') \<Rightarrow> group_loop s' sender users m)
      else group_loop s sender users m)"

definition send_group_message :: "server \<Rightarrow> string \<Rightarrow> string \<Rightarrow> string \<Rightarrow> outcome" where
  "send_group_message s sender group_name text =
     (if group_name \<in> dom (groups s) \<and> sender \<in> set (the (groups s group_name))
      then group_loop s sender (the (groups s group_name))
             (message_to_json ''group'' sender group_name text)
      else send_system_message s sender
             (''Group '' @ group_name @ '' does not exist or you are not a member.''))"

definition create_group :: "server \<Rightarrow> string \<Rightarrow> string \<Rightarrow> outcome" where
  "create_group s sender group_name =
     (if group_name \<notin> dom (groups s)
      then send_system_message (s\<lparr>groups := (groups s)(group_name \<mapsto> [sender])\<rparr>) sender
             (''Group '' @ group_name @ '' created successfully.'')
      else send_system_message s sender (''Group '' @ group_name @ '' already exists.''))"

definition join_group :: "server \<Rightarrow> string \<Rightarrow> string \<Rightarrow> outcome" where
  "join_group s sender group_name =
     (if group_name \<in> dom (groups s)
      then (if sender \<notin> set (the (groups s group_name))
            then send_system_message
                   (s\<lparr>groups := (groups s)(group_name \<mapsto> the (groups s group_name) @ [sender])\<rparr>)
                   sender (''You have joined group '' @ group_name @ ''.'')
            else send_system_message s sender
                   (''You are already in group '' @ group_name @ ''.''))
      else send_system_message s sender (''Group '' @ group_name @ '' does not exist.''))"

text \<open>
  \<^verbatim>\<open>data\<close> is the dictionary \<^verbatim>\<open>json.loads\<close> returned, with string values. The three
  subscripts come first, each raising \<^verbatim>\<open>KeyError\<close> on a missing key, then the
  \<^verbatim>\<open>if/elif\<close> chain, which has no \<^verbatim>\<open>else\<close>.
\<close>

definition process_message :: "server \<Rightarrow> (string \<rightharpoonup> string) \<Rightarrow> string \<Rightarrow> outcome" where
  "process_message s data sender =
     (case data ''status'' of None \<Rightarrow> (Some KeyError, s) | Some status \<Rightarrow>
      (case data ''receiver'' of None \<Rightarrow> (Some KeyError, s) | Some receiver \<Rightarrow>
       (case data ''text'' of None \<Rightarrow> (Some KeyError, s) | Some text \<Rightarrow>
          if status = ''private'' then send_private_message s sender receiver text
          else if status = ''group'' then send_group_message s sender receiver text
          else if status = ''create'' then create_group s sender receiver
          else if status = ''join'' then join_group s sender receiver
          else (None, s))))"

section \<open>The per-connection worker\<close>

text \<open>
  What one pass of the \<^verbatim>\<open>while True\<close> loop can read: \<open>Eof\<close> is a zero-length read,
  \<open>RecvRaises e\<close> is \<^verbatim>\<open>recv(1024).decode('utf-8')\<close> raising \<open>e\<close> (a reset connection,
  or bytes that are not UTF-8), \<open>NotJson\<close> is a payload on which \<^verbatim>\<open>json.loads\<close> raises
  (truncated or malformed text), \<open>NotObject\<close> is JSON that is not an object, so that
  \<^verbatim>\<open>data["status"]\<close> raises \<^verbatim>\<open>TypeError\<close>, and \<open>Object d\<close> is a JSON object.
\<close>

datatype inbound =
  Eof | RecvRaises error | NotJson | NotObject | Object "string \<rightharpoonup> string"

text \<open>
  How the \<^verbatim>\<open>try\<close> body ends: the input known so far is used up and the worker is
  blocked in \<^verbatim>\<open>recv\<close>, or \<^verbatim>\<open>break\<close>, or an exception.
\<close>

datatype loop_exit = NoInput | Break | LoopRaised error

fun recv_loop :: "server \<Rightarrow> string \<Rightarrow> inbound list \<Rightarrow> loop_exit \<times> server" where
  "recv_loop s username [] = (NoInput, s)"
| "recv_loop s username (Eof # rest) = (Break, s)"
| "recv_loop s username (RecvRaises e # rest) = (LoopRaised e, s)"
| "recv_loop s username (NotJson # rest) = (LoopRaised JSONDecodeError, s)"
| "recv_loop s username (NotObject # rest) = (LoopRaised TypeError, s)"
| "recv_loop s username (Object data # rest) =
     (case process_message s data username of
        (Some e, s') \<Rightarrow> (LoopRaised e, s')
      | (None, s') \<Rightarrow> recv_loop s' username rest)"

text \<open>\<^verbatim>\<open>except (ConnectionResetError, BrokenPipeError)\<close>\<close>

definition caught :: "error \<Rightarrow> bool" where
  "caught e = (e = ConnectionResetError \<or> e = BrokenPipeError)"

text \<open>
  How the worker ends: still blocked in \<^verbatim>\<open>recv\<close>, a normal return, or an exception
  that leaves \<^verbatim>\<open>handle_client\<close> and ends the thread.
\<close>

datatype exit = Blocked | Returned | Raised error

text \<open>
  The \<^verbatim>\<open>finally\<close> block. \<open>pending\<close> is the exception of the \<^verbatim>\<open>try\<close> body that no
  \<^verbatim>\<open>except\<close> clause took; it is raised again after the block, unless the block raises
  itself.
\<close>

definition finally_block :: "server \<Rightarrow> string \<Rightarrow> sock \<Rightarrow> error option \<Rightarrow> exit \<times> server" where
  "finally_block s username c pending =
     (case broadcast_system_message (close (deregister s username) c)
             (username @ '' has left the chat.'') of
        (Some e, s') \<Rightarrow> (Raised e, s')
      | (None, s') \<Rightarrow> (case pending of Some e \<Rightarrow> (Raised e, s') | None \<Rightarrow> (Returned, s')))"

text \<open>
  \<^verbatim>\<open>handle_client\<close> on socket \<open>c\<close>: \<open>username\<close> is the first read, decoded;
  \<open>inputs\<close> are the reads that follow.
\<close>

definition handle_client :: "server \<Rightarrow> sock \<Rightarrow> string \<Rightarrow> inbound list \<Rightarrow> exit \<times> server" where
  "handle_client s c username inputs =
     (case recv_loop (register s username c) username inputs of
        (NoInput, s') \<Rightarrow> (Blocked, s')
      | (Break, s') \<Rightarrow> finally_block s' username c None
      | (LoopRaised e, s') \<Rightarrow>
          if caught e then finally_block s' username c None
          else finally_block s' username c (Some e))"

section \<open>Vocabulary of the properties\<close>

text \<open>
  The sockets a group message goes to: those of the members other than the sender that
  are registered, in the order of the member list.
\<close>

definition group_targets :: "server \<Rightarrow> string \<Rightarrow> string list \<Rightarrow> sock list" where
  "group_targets s sender members =
     map (\<lambda>u. the (lookup s u)) (filter (\<lambda>u. u \<noteq> sender \<and> lookup s u \<noteq> None) members)"


text \<open>
  \<^verbatim>\<open>clients\<close> is a dictionary, so its keys are distinct; and a socket is registered by
  the one worker that owns it, so no socket stands under two names.
\<close>

definition registry_ok :: "server \<Rightarrow> bool" where
  "registry_ok s = (distinct (map fst (clients s)) \<and> distinct (map snd (clients s)))"

text \<open>The dictionary a client sends, as \<^verbatim>\<open>json.loads\<close> returns it.\<close>

definition envelope_of :: "string \<Rightarrow> string \<Rightarrow> string \<Rightarrow> (string \<rightharpoonup> string)" where
  "envelope_of status receiver text =
     [''status'' \<mapsto> status, ''receiver'' \<mapsto> receiver, ''text'' \<mapsto> text]"

text \<open>
  A concrete server: three sessions, and one group whose member \<open>dave\<close> is not
  connected.
\<close>

definition demo :: server where
  "demo = \<lparr>clients = [(''alice'', 1), (''bob'', 2), (''carol'', 3)],
            groups = [''proj'' \<mapsto> [''alice'', ''bob'', ''dave'', ''carol'']],
            conn = (\<lambda>c. Up), wire = (\<lambda>c. [])\<rparr>"

text \<open>The two writes of the registry, as operations that can be put in a sequence.\<close>

datatype reg_op = Register string sock | Deregister string

fun apply_reg :: "server \<Rightarrow> reg_op \<Rightarrow> server" where
  "apply_reg s (Register identity c) = register s identity c"
| "apply_reg s (Deregister identity) = deregister s identity"

text \<open>
  The spec's words: the handle of the most recent \<open>register\<close> of the identity that no
  \<open>deregister\<close> of it follows, else absent. The operations are given newest first, so
  the most recent operation on the identity decides.
\<close>

fun most_recent_registration :: "reg_op list \<Rightarrow> string \<Rightarrow> sock option" where
  "most_recent_registration [] identity = None"
| "most_recent_registration (Register u c # older) identity =
     (if u = identity then Some c else most_recent_registration older identity)"
| "most_recent_registration (Deregister u # older) identity =
     (if u = identity then None else most_recent_registration older identity)"

text \<open>
  The operations on the shared state, so that they can be put in a sequence: the two
  directory operations, a dispatch, the \<^verbatim>\<open>finally\<close> block of a worker, and a whole
  run of \<^verbatim>\<open>handle_client\<close>.
\<close>

datatype server_op =
  Create string string
| Join string string
| Dispatch "string \<rightharpoonup> string" string
| Disconnect string sock "error option"
| Session sock string "inbound list"

fun perform :: "server \<Rightarrow> server_op \<Rightarrow> server" where
  "perform s (Create sender group_name) = snd (create_group s sender group_name)"
| "perform s (Join sender group_name) = snd (join_group s sender group_name)"
| "perform s (Dispatch data sender) = snd (process_message s data sender)"
| "perform s (Disconnect username c pending) = snd (finally_block s username c pending)"
| "perform s (Session c username inputs) = snd (handle_client s c username inputs)"

text \<open>The invariant of the Group Directory: no group is empty, no member is listed twice.\<close>

definition groups_ok :: "server \<Rightarrow> bool" where
  "groups_ok s = (\<forall>g ms. groups s g = Some ms \<longrightarrow> ms \<noteq> [] \<and> distinct ms)"

text \<open>
  \<open>extends m m'\<close>: every group of \<open>m\<close> is a group of \<open>m'\<close> whose member list starts
  with the one it had.
\<close>

definition extends :: "(string \<rightharpoonup> string list) \<Rightarrow> (string \<rightharpoonup> string list) \<Rightarrow> bool" where
  "extends m m' = (\<forall>g ms. m g = Some ms \<longrightarrow> (\<exists>more. m' g = Some (ms @ more)))"

definition advances :: "server \<Rightarrow> server \<Rightarrow> bool" where
  "advances s s' = ((groups_ok s \<longrightarrow> groups_ok s') \<and> extends (groups s) (groups s'))"

text \<open>A sequence of operations that exercises all of them.\<close>

definition busy_day :: "server_op list" where
  "busy_day =
     [Session 1 ''alice'' [Object (envelope_of ''create'' ''proj'' '''')],
      Session 2 ''bob'' [Object (envelope_of ''join'' ''proj'' ''''),
                         Object (envelope_of ''join'' ''proj'' ''''),
                         Object (envelope_of ''group'' ''proj'' ''hello''), Eof],
      Create ''bob'' ''proj'',
      Join ''carol'' ''proj'',
      Dispatch (envelope_of ''join'' ''proj'' '''') ''alice'',
      Disconnect ''alice'' 1 None]"


text \<open>
  The inputs that do not decode to an envelope, with the exception each raises in the
  worker: bytes that are not UTF-8, text that is not JSON, JSON that is not an object,
  and an object that lacks one of the three keys \<^verbatim>\<open>process_message\<close> reads.
\<close>

fun decode_error :: "inbound \<Rightarrow> error option" where
  "decode_error NotJson = Some JSONDecodeError"
| "decode_error NotObject = Some TypeError"
| "decode_error (Object data) =
     (if data ''status'' = None \<or> data ''receiver'' = None \<or> data ''text'' = None
      then Some KeyError else None)"
| "decode_error Eof = None"
| "decode_error (RecvRaises e) =
     (if e = UnicodeDecodeError then Some UnicodeDecodeError else None)"

section \<open>Writes and loops of writes\<close>


lemma sendall_frame [simp]:
  "clients (snd (sendall s c m)) = clients s"
  "groups (snd (sendall s c m)) = groups s"
  "conn (snd (sendall s c m)) = conn s"
  by (simp_all add: sendall_def split: option.splits)

lemma sendall_fst [simp]: "fst (sendall s c m) = send_error (conn s c)"
  by (simp add: sendall_def split: option.splits)

lemma send_error_None [simp]: "send_error k = None \<longleftrightarrow> k = Up"
  by (cases k) simp_all


lemma sendall_down: "conn s c \<noteq> Up \<Longrightarrow> sendall s c m = (send_error (conn s c), s)"
  by (cases "conn s c") (simp_all add: sendall_def)

lemma sendall_wire:
  "wire (snd (sendall s c m)) c' =
     wire s c' @ (if conn s c = Up \<and> c' = c then [m] else [])"
  by (cases "conn s c") (simp_all add: sendall_def)

lemma send_each_frame [simp]:
  "clients (snd (send_each s cs m)) = clients s"
  "groups (snd (send_each s cs m)) = groups s"
  "conn (snd (send_each s cs m)) = conn s"
proof (induction cs arbitrary: s)
  case Nil
  { case 1 show ?case by simp }
  { case 2 show ?case by simp }
  { case 3 show ?case by simp }
next
  case (Cons c cs)
  { case 1 show ?case using Cons.IH(1)[of "snd (sendall s c m)"] sendall_frame(1)[of s c m]
      by (cases "sendall s c m") (auto split: option.splits) }
  { case 2 show ?case using Cons.IH(2)[of "snd (sendall s c m)"] sendall_frame(2)[of s c m]
      by (cases "sendall s c m") (auto split: option.splits) }
  { case 3 show ?case using Cons.IH(3)[of "snd (sendall s c m)"] sendall_frame(3)[of s c m]
      by (cases "sendall s c m") (auto split: option.splits) }
qed









lemma group_targets_sendall [simp]:
  "group_targets (snd (sendall s c m)) sender ms = group_targets s sender ms"
  by (simp add: group_targets_def lookup_def)

lemma group_targets_simps [simp]:
  "group_targets s sender [] = []"
  "group_targets s sender (u # us) =
     (if u \<noteq> sender \<and> u \<in> dom (map_of (clients s))
      then the (map_of (clients s) u) # group_targets s sender us
      else group_targets s sender us)"
  by (auto simp: group_targets_def lookup_def)

lemma group_loop_send_each:
  "group_loop s sender ms m = send_each s (group_targets s sender ms) m"
proof (induction ms arbitrary: s)
  case Nil
  show ?case by simp
next
  case (Cons u us)
  show ?case
  proof (cases "u \<noteq> sender \<and> u \<in> dom (map_of (clients s))")
    case True
    obtain r s' where r: "sendall s (the (map_of (clients s) u)) m = (r, s')"
      by (cases "sendall s (the (map_of (clients s) u)) m")
    have "group_targets s' sender us = group_targets s sender us"
      using group_targets_sendall[of s "the (map_of (clients s) u)" m sender us] r by simp
    with True r Cons.IH[of s'] show ?thesis
      by (simp split: option.splits)
  next
    case False
    with Cons.IH[of s] show ?thesis by auto
  qed
qed






lemma send_system_message_absent:
  "lookup s user = None \<Longrightarrow> send_system_message s user txt = (None, s)"
  by (auto simp: send_system_message_def lookup_def)




lemma send_group_message_rejected:
  "groups s g = None \<or> (\<exists>ms. groups s g = Some ms \<and> sender \<notin> set ms) \<Longrightarrow>
   send_group_message s sender g body =
     send_system_message s sender (''Group '' @ g @ '' does not exist or you are not a member.'')"
  by (auto simp: send_group_message_def)




section \<open>The registry and private messages\<close>

lemma lookup_register: "lookup (register s u c) v = (if v = u then Some c else lookup s v)"
  by (simp add: lookup_def register_def update_conv')

lemma lookup_deregister: "lookup (deregister s u) v = (if v = u then None else lookup s v)"
  by (auto simp: lookup_def deregister_def delete_conv')

lemma deregister_absent: "lookup s u = None \<Longrightarrow> deregister s u = s"
  by (auto simp: lookup_def deregister_def)





lemma send_private_message_not_found:
  "lookup s target = None \<Longrightarrow>
   send_private_message s sender target body =
     send_system_message s sender (''User '' @ target @ '' not found.'')"
  by (auto simp: send_private_message_def lookup_def)

lemma run_registry:
  "lookup (foldl apply_reg s ops) identity =
     (if \<exists>op\<in>set ops. op = Deregister identity \<or> (\<exists>c. op = Register identity c)
      then most_recent_registration (rev ops) identity else lookup s identity)"
proof (induction ops rule: rev_induct)
  case Nil
  show ?case by simp
next
  case (snoc op ops)
  show ?case
  proof (cases op)
    case (Register u c)
    with snoc show ?thesis by (auto simp: lookup_register)
  next
    case (Deregister u)
    with snoc show ?thesis by (auto simp: lookup_deregister)
  qed
qed

lemma most_recent_untouched:
  "\<not> (\<exists>op\<in>set ops. op = Deregister identity \<or> (\<exists>c. op = Register identity c)) \<Longrightarrow>
   most_recent_registration ops identity = None"
  by (induction ops identity rule: most_recent_registration.induct) auto

lemma lookup_initial: "lookup initial identity = None"
  by (simp add: lookup_def initial_def)

lemma keys_update_present:
  "map_of al k = Some v \<Longrightarrow> map fst (AList.update k v' al) = map fst al"
  by (induction al) (auto split: if_splits)

lemma length_update_present:
  "map_of al k = Some v \<Longrightarrow> length (AList.update k v' al) = length al"
  using keys_update_present[of al k v v'] by (metis length_map)

section \<open>The Group Directory\<close>

lemma send_system_message_frame [simp]:
  "clients (snd (send_system_message s u t)) = clients s"
  "groups (snd (send_system_message s u t)) = groups s"
  "conn (snd (send_system_message s u t)) = conn s"
  by (simp_all add: send_system_message_def)

lemma lookup_groups_update [simp]: "lookup (s\<lparr>groups := m\<rparr>) u = lookup s u"
  by (simp add: lookup_def)

lemma create_group_new:
  "groups s G = None \<Longrightarrow>
   create_group s A G =
     send_system_message (s\<lparr>groups := (groups s)(G \<mapsto> [A])\<rparr>) A
       (''Group '' @ G @ '' created successfully.'')"
  by (auto simp: create_group_def)

lemma create_group_taken:
  "groups s G = Some ms \<Longrightarrow>
   create_group s A G = send_system_message s A (''Group '' @ G @ '' already exists.'')"
  by (auto simp: create_group_def)

lemma join_group_absent:
  "groups s G = None \<Longrightarrow>
   join_group s A G = send_system_message s A (''Group '' @ G @ '' does not exist.'')"
  by (auto simp: join_group_def)

lemma join_group_member:
  "groups s G = Some ms \<Longrightarrow> A \<in> set ms \<Longrightarrow>
   join_group s A G = send_system_message s A (''You are already in group '' @ G @ ''.'')"
  by (auto simp: join_group_def)

lemma join_group_new:
  "groups s G = Some ms \<Longrightarrow> A \<notin> set ms \<Longrightarrow>
   join_group s A G =
     send_system_message (s\<lparr>groups := (groups s)(G \<mapsto> ms @ [A])\<rparr>) A
       (''You have joined group '' @ G @ ''.'')"
  by (auto simp: join_group_def)

lemma groups_create_group:
  "groups (snd (create_group s A G)) =
     (if groups s G = None then (groups s)(G \<mapsto> [A]) else groups s)"
  by (auto simp: create_group_def)

lemma groups_join_group:
  "groups (snd (join_group s A G)) =
     (case groups s G of None \<Rightarrow> groups s
      | Some ms \<Rightarrow> if A \<in> set ms then groups s else (groups s)(G \<mapsto> ms @ [A]))"
  by (auto simp: join_group_def split: option.splits)



section \<open>What the operations do to the directory\<close>

lemma extends_refl: "extends m m"
  by (simp add: extends_def)

lemma extends_trans: "extends a b \<Longrightarrow> extends b c \<Longrightarrow> extends a c"
  unfolding extends_def by (metis append.assoc)

lemma advances_same: "groups s' = groups s \<Longrightarrow> advances s s'"
  by (simp add: advances_def groups_ok_def extends_refl)

lemma advances_trans: "advances a b \<Longrightarrow> advances b c \<Longrightarrow> advances a c"
  by (auto simp: advances_def intro: extends_trans)

lemma advances_create_group: "advances s (snd (create_group s A G))"
  by (auto simp: advances_def groups_ok_def extends_def groups_create_group)

lemma advances_join_group: "advances s (snd (join_group s A G))"
  by (auto simp: advances_def groups_ok_def extends_def groups_join_group split: option.splits)

lemma groups_send_private_message [simp]:
  "groups (snd (send_private_message s sender receiver body)) = groups s"
  by (simp add: send_private_message_def)

lemma groups_send_group_message [simp]:
  "groups (snd (send_group_message s sender g body)) = groups s"
  by (simp add: send_group_message_def group_loop_send_each)

lemma groups_broadcast [simp]: "groups (snd (broadcast_system_message s txt)) = groups s"
  by (simp add: broadcast_system_message_def)

lemma groups_registry_ops [simp]:
  "groups (register s u c) = groups s"
  "groups (deregister s u) = groups s"
  "groups (close s c) = groups s"
  by (simp_all add: register_def deregister_def close_def)

lemma groups_finally_block [simp]: "groups (snd (finally_block s u c pending)) = groups s"
proof -
  obtain r s' where b: "broadcast_system_message (close (deregister s u) c) (u @ '' has left the chat.'') = (r, s')"
    by (cases "broadcast_system_message (close (deregister s u) c) (u @ '' has left the chat.'')")
  have "groups s' = groups s"
    using groups_broadcast[of "close (deregister s u) c" "u @ '' has left the chat.''"] b by simp
  then show ?thesis
    by (simp add: finally_block_def b split: option.splits)
qed

lemma advances_process_message: "advances s (snd (process_message s data sender))"
  by (auto simp: process_message_def advances_create_group advances_join_group advances_same
      split: option.splits)

lemma advances_recv_loop: "advances s (snd (recv_loop s u inputs))"
proof (induction s u inputs rule: recv_loop.induct)
  case (6 s username data rest)
  obtain r s' where p: "process_message s data username = (r, s')"
    by (cases "process_message s data username")
  have a: "advances s s'"
    using advances_process_message[of s data username] p by simp
  show ?case
  proof (cases r)
    case None
    with 6 p have "advances s' (snd (recv_loop s' username rest))" by simp
    with a None p show ?thesis by (auto intro: advances_trans)
  next
    case (Some e)
    with a p show ?thesis by simp
  qed
qed (simp_all add: advances_same)

lemma advances_handle_client: "advances s (snd (handle_client s c u inputs))"
proof -
  obtain x s' where l: "recv_loop (register s u c) u inputs = (x, s')"
    by (cases "recv_loop (register s u c) u inputs")
  have 1: "advances s (register s u c)" by (simp add: advances_same)
  have 2: "advances (register s u c) s'"
    using advances_recv_loop[of "register s u c" u inputs] l by simp
  have 3: "advances s s'" using 1 2 by (rule advances_trans)
  have 4: "\<And>p. advances s' (snd (finally_block s' u c p))" by (simp add: advances_same)
  show ?thesis
    using 3 advances_trans[OF 3 4]
    by (cases x) (simp_all add: handle_client_def l)
qed

lemma advances_perform: "advances s (perform s x)"
  by (cases x)
    (simp_all add: advances_create_group advances_join_group advances_process_message
      advances_handle_client advances_same)

lemma advances_run: "advances s (foldl perform s ops)"
proof (induction ops arbitrary: s)
  case Nil
  show ?case by (simp add: advances_same)
next
  case (Cons x ops)
  show ?case
    using advances_perform[of s x] Cons.IH[of "perform s x"] by (auto intro: advances_trans)
qed

section \<open>The \<^verbatim>\<open>finally\<close> block\<close>

lemma deregister_eq: "deregister s u = s\<lparr>clients := AList.delete u (clients s)\<rparr>"
proof (cases "u \<in> dom (map_of (clients s))")
  case True
  then show ?thesis by (simp add: deregister_def)
next
  case False
  then have "AList.delete u (clients s) = clients s"
    by (simp add: dom_map_of_conv_image_fst)
  with False show ?thesis by (simp add: deregister_def)
qed


lemma distinct_snd_delete: "distinct (map snd al) \<Longrightarrow> distinct (map snd (AList.delete k al))"
  by (simp add: AList.delete_eq distinct_map_filter)



lemma set_update_subset: "set (AList.update k v al) \<subseteq> insert (k, v) (set al)"
  by (induction al) auto

lemma distinct_snd_update:
  "distinct (map snd al) \<Longrightarrow> v \<notin> snd ` set al \<Longrightarrow> distinct (map snd (AList.update k v al))"
proof (induction al)
  case Nil
  then show ?case by simp
next
  case (Cons p al)
  show ?case
  proof (cases "fst p = k")
    case True
    with Cons.prems show ?thesis by auto
  next
    case False
    have "snd p \<notin> snd ` set (AList.update k v al)"
      using Cons.prems set_update_subset[of k v al] by (auto simp: image_iff)
    with False Cons show ?thesis by simp
  qed
qed

text \<open>
  The registry stays well formed: a worker registers the socket \<^verbatim>\<open>accept\<close> gave it,
  which no entry holds yet, and removing an entry cannot break anything.
\<close>

lemma registry_ok_register:
  "registry_ok s \<Longrightarrow> c \<notin> snd ` set (clients s) \<Longrightarrow> registry_ok (register s u c)"
  by (simp add: registry_ok_def register_def distinct_update distinct_snd_update)

lemma registry_ok_deregister: "registry_ok s \<Longrightarrow> registry_ok (deregister s u)"
  by (simp add: registry_ok_def deregister_eq distinct_delete distinct_snd_delete)


section \<open>Broadcasts and exceptions in the worker\<close>




lemma clients_broadcast [simp]: "clients (snd (broadcast_system_message s txt)) = clients s"
  by (simp add: broadcast_system_message_def)

lemma snd_finally_block:
  "snd (finally_block s u c pending) =
     snd (broadcast_system_message (close (deregister s u) c) (u @ '' has left the chat.''))"
  by (cases "broadcast_system_message (close (deregister s u) c) (u @ '' has left the chat.'')")
    (simp add: finally_block_def split: option.splits)

lemma lookup_finally_block: "lookup (snd (finally_block s u c pending)) u = None"
  by (simp add: snd_finally_block lookup_def close_def deregister_eq delete_conv')

lemma fst_finally_block_pending: "fst (finally_block s u c (Some e)) \<noteq> Returned"
  by (cases "broadcast_system_message (close (deregister s u) c) (u @ '' has left the chat.'')")
    (simp add: finally_block_def split: option.splits)



section \<open>Input that does not decode\<close>

lemma recv_loop_append:
  "recv_loop s u (xs @ ys) =
     (case recv_loop s u xs of (NoInput, s') \<Rightarrow> recv_loop s' u ys | r \<Rightarrow> r)"
proof (induction s u xs rule: recv_loop.induct)
  case (6 s username data rest)
  obtain r s' where p: "process_message s data username = (r, s')"
    by (cases "process_message s data username")
  show ?case
  proof (cases r)
    case None
    with 6 p show ?thesis by simp
  next
    case (Some e)
    with p show ?thesis by simp
  qed
qed simp_all

lemma process_message_KeyError:
  assumes "data ''status'' = None \<or> data ''receiver'' = None \<or> data ''text'' = None"
  shows "process_message s data sender = (Some KeyError, s)"
proof (cases "data ''status''")
  case None
  then show ?thesis by (simp add: process_message_def)
next
  case st: (Some status)
  show ?thesis
  proof (cases "data ''receiver''")
    case None
    with st show ?thesis by (simp add: process_message_def)
  next
    case rc: (Some receiver)
    from assms st rc have "data ''text'' = None" by simp
    with st rc show ?thesis by (simp add: process_message_def)
  qed
qed

lemma recv_loop_decode_error:
  "decode_error x = Some e \<Longrightarrow> recv_loop s u (x # rest) = (LoopRaised e, s)"
proof (cases x)
  case (Object data)
  assume d: "decode_error x = Some e"
  with Object have k: "data ''status'' = None \<or> data ''receiver'' = None \<or> data ''text'' = None"
    and e: "e = KeyError"
    by (simp_all split: if_splits)
  show ?thesis
    unfolding Object e by (simp add: process_message_KeyError[OF k])
qed (auto split: if_splits)

lemma decode_error_not_caught: "decode_error x = Some e \<Longrightarrow> \<not> caught e"
  by (cases x) (auto simp: caught_def split: if_splits)

lemma recv_loop_after:
  "recv_loop s u before = (NoInput, s1) \<Longrightarrow> recv_loop s u (before @ ys) = recv_loop s1 u ys"
  using recv_loop_append[of s u before ys] by simp

lemma recv_loop_stopped:
  "recv_loop s u before = (x0, s1) \<Longrightarrow> x0 \<noteq> NoInput \<Longrightarrow>
   recv_loop s u (before @ ys) = (x0, s1)"
  using recv_loop_append[of s u before ys] by (cases x0) simp_all

lemma handle_client_decode_error:
  assumes "decode_error x = Some e" "recv_loop (register s u c) u before = (NoInput, s1)"
  shows "handle_client s c u (before @ x # rest) = finally_block s1 u c (Some e)"
    and "handle_client s c u (before @ [Eof]) = finally_block s1 u c None"
proof -
  have 1: "recv_loop (register s u c) u (before @ x # rest) = (LoopRaised e, s1)"
    using recv_loop_after[OF assms(2), of "x # rest"] recv_loop_decode_error[OF assms(1), of s1 u rest]
    by simp
  have 2: "recv_loop (register s u c) u (before @ [Eof]) = (Break, s1)"
    using recv_loop_after[OF assms(2), of "[Eof]"] by simp
  show "handle_client s c u (before @ x # rest) = finally_block s1 u c (Some e)"
    using decode_error_not_caught[OF assms(1)] by (simp add: handle_client_def 1)
  show "handle_client s c u (before @ [Eof]) = finally_block s1 u c None"
    by (simp add: handle_client_def 2)
qed

lemma handle_client_stopped_before:
  assumes "recv_loop (register s u c) u before = (x0, s1)" "x0 \<noteq> NoInput"
  shows "handle_client s c u (before @ rest) = handle_client s c u before"
  using recv_loop_stopped[OF assms, of rest] assms(1) by (simp add: handle_client_def)

lemma malformed_same_state:
  assumes "decode_error x = Some e"
  shows "snd (handle_client s c u (before @ x # rest)) = snd (handle_client s c u (before @ [Eof]))"
proof -
  obtain x0 s1 where l: "recv_loop (register s u c) u before = (x0, s1)"
    by (cases "recv_loop (register s u c) u before")
  show ?thesis
  proof (cases "x0 = NoInput")
    case True
    with l assms show ?thesis
      by (simp add: handle_client_decode_error snd_finally_block)
  next
    case False
    then show ?thesis
      using handle_client_stopped_before[OF l False, where rest = "x # rest"]
        handle_client_stopped_before[OF l False, where rest = "[Eof]"] by simp
  qed
qed

lemma lookup_handle_client_closed:
  assumes "recv_loop (register s u c) u inputs = (x0, s1)" "x0 \<noteq> NoInput"
  shows "lookup (snd (handle_client s c u inputs)) u = None"
  using assms by (cases x0) (simp_all add: handle_client_def lookup_finally_block)

lemma recv_loop_Eof_last: "fst (recv_loop s u (before @ [Eof])) \<noteq> NoInput"
proof -
  obtain x0 s1 where l: "recv_loop s u before = (x0, s1)"
    by (cases "recv_loop s u before")
  show ?thesis
  proof (cases "x0 = NoInput")
    case True
    then show ?thesis using recv_loop_after[of s u before s1 "[Eof]"] l by simp
  next
    case False
    then show ?thesis using recv_loop_stopped[OF l False, of "[Eof]"] by simp
  qed
qed

section \<open>Group messages\<close>



section \<open>Private messages\<close>



section \<open>The Session Registry\<close>

text \<open>
  C3. After any sequence of \<open>register\<close> and \<open>deregister\<close> operations on the empty
  registry, \<open>lookup\<close> of an identity returns the handle of the most recent
  \<open>register\<close> of it that no \<open>deregister\<close> of it follows, and nothing otherwise.
  \<open>register\<close> on an identity that is present overwrites its entry in place (as many
  entries as before, under the same names) and closes no socket; \<open>deregister\<close> on an
  absent identity changes nothing.
\<close>

theorem registry_last_write_wins:
  "lookup (foldl apply_reg initial ops) identity = most_recent_registration (rev ops) identity \<and>
   lookup (register s identity c') identity = Some c' \<and>
   (\<forall>c. lookup s identity = Some c \<longrightarrow>
        length (clients (register s identity c')) = length (clients s) \<and>
        map fst (clients (register s identity c')) = map fst (clients s)) \<and>
   conn (register s identity c') = conn s \<and>
   wire (register s identity c') = wire s \<and>
   (lookup s identity = None \<longrightarrow> deregister s identity = s) \<and>
   lookup (deregister s identity) identity = None"
proof -
  have 1: "lookup (foldl apply_reg initial ops) identity = most_recent_registration (rev ops) identity"
    using most_recent_untouched[of "rev ops" identity]
    by (simp only: run_registry lookup_initial set_rev split: if_splits) auto
  have 2: "\<forall>c. lookup s identity = Some c \<longrightarrow>
        length (clients (register s identity c')) = length (clients s) \<and>
        map fst (clients (register s identity c')) = map fst (clients s)"
    by (simp add: lookup_def register_def length_update_present keys_update_present)
  have 3: "conn (register s identity c') = conn s" "wire (register s identity c') = wire s"
    by (simp_all add: register_def)
  show ?thesis
    using 1 2 3 by (simp add: lookup_register lookup_deregister deregister_absent)
qed

theorem registry_last_write_wins_witness:
  "lookup (foldl apply_reg initial
      [Register ''alice'' 1, Register ''bob'' 2, Register ''alice'' 3, Deregister ''bob'']) ''alice''
     = Some 3 \<and>
   lookup (foldl apply_reg initial
      [Register ''alice'' 1, Register ''bob'' 2, Register ''alice'' 3, Deregister ''bob'']) ''bob''
     = None \<and>
   clients (register demo ''alice'' 7) = [(''alice'', 7), (''bob'', 2), (''carol'', 3)] \<and>
   conn (register demo ''alice'' 7) 1 = Up \<and>
   deregister demo ''erin'' = demo"
  using registry_last_write_wins[of
      "[Register ''alice'' 1, Register ''bob'' 2, Register ''alice'' 3, Deregister ''bob'']"
      "''alice''" demo 7]
    registry_last_write_wins[of
      "[Register ''alice'' 1, Register ''bob'' 2, Register ''alice'' 3, Deregister ''bob'']"
      "''bob''" demo 7]
    registry_last_write_wins[of "[]" "''erin''" demo 7]
  by (simp add: demo_def lookup_def register_def)

section \<open>Creating and joining groups\<close>



section \<open>The invariant of the Group Directory\<close>

text \<open>
  C5. Every operation (create, join, the dispatch of any message, the disconnect handling
  of a worker, a whole worker run) keeps the invariant that each group in the directory
  has at least one member and lists no identity twice, whatever the operation raises.
  A group never goes away and its member list only grows at the end: in particular the
  creator, its first member, stays a member after any sequence of operations.
\<close>

theorem group_invariant:
  assumes "groups_ok s"
  shows "groups_ok (foldl perform s ops) \<and>
    (\<forall>g ms. groups s g = Some ms \<longrightarrow>
       (\<exists>more. groups (foldl perform s ops) g = Some (ms @ more))) \<and>
    (groups s G = None \<longrightarrow>
       (\<exists>more. groups (foldl perform (snd (create_group s A G)) ops) G = Some (A # more)))"
proof -
  have 1: "groups_ok (foldl perform s ops)"
    using advances_run[of s ops] assms by (simp add: advances_def)
  have 2: "\<forall>g ms. groups s g = Some ms \<longrightarrow>
       (\<exists>more. groups (foldl perform s ops) g = Some (ms @ more))"
    using advances_run[of s ops] by (simp add: advances_def extends_def)
  have 3: "groups s G = None \<longrightarrow>
       (\<exists>more. groups (foldl perform (snd (create_group s A G)) ops) G = Some (A # more))"
  proof
    assume "groups s G = None"
    then have "groups (snd (create_group s A G)) G = Some [A]"
      by (simp add: groups_create_group)
    then show "\<exists>more. groups (foldl perform (snd (create_group s A G)) ops) G = Some (A # more)"
      using advances_run[of "snd (create_group s A G)" ops]
      by (fastforce simp: advances_def extends_def)
  qed
  show ?thesis using 1 2 3 by blast
qed

theorem group_invariant_witness:
  "groups_ok initial \<and>
   groups (foldl perform initial busy_day) ''proj'' = Some [''alice'', ''bob'', ''carol''] \<and>
   groups_ok (foldl perform initial busy_day)"
  using group_invariant[of initial busy_day "''proj''" "''alice''"]
  by (simp add: initial_def busy_day_def groups_ok_def envelope_of_def handle_client_def
      register_def deregister_def close_def process_message_def create_group_def join_group_def
      send_group_message_def send_system_message_def sendall_def finally_block_def
      broadcast_system_message_def caught_def)

section \<open>Write failures\<close>




section \<open>Malformed input\<close>

text \<open>
  C7, as the code has it. The \<^verbatim>\<open>except\<close> clause of \<^verbatim>\<open>handle_client\<close> names
  \<^verbatim>\<open>ConnectionResetError\<close> and \<^verbatim>\<open>BrokenPipeError\<close> only. Bytes that are not UTF-8,
  a payload that is not JSON, JSON that is not an object, or an object without the three
  keys make the worker end
  by the exception of the decoding, raised again after the \<^verbatim>\<open>finally\<close> block; a
  zero-length read and a reset connection make it return.
\<close>

theorem malformed_input_counterexample:
  "fst (handle_client initial 1 ''alice'' [NotJson]) = Raised JSONDecodeError \<and>
   fst (handle_client initial 1 ''alice'' [RecvRaises UnicodeDecodeError])
     = Raised UnicodeDecodeError \<and>
   fst (handle_client initial 1 ''alice'' [NotObject]) = Raised TypeError \<and>
   fst (handle_client initial 1 ''alice'' [Object [''status'' \<mapsto> ''join'']]) = Raised KeyError \<and>
   fst (handle_client initial 1 ''alice'' [Eof]) = Returned \<and>
   fst (handle_client initial 1 ''alice'' [RecvRaises ConnectionResetError]) = Returned"
  by (simp add: handle_client_def initial_def register_def process_message_def caught_def
      finally_block_def deregister_def close_def broadcast_system_message_def)

text \<open>
  C7, amended. On input that does not decode, whatever was read before it, the worker
  reaches its cleanup just as on a zero-length read at the same place: the server is left
  in the same state (the identity removed from the registry, the socket closed, the
  departure announced), and the identity is not registered afterwards. The worker does not
  return, though: where the zero-length read makes it return, the malformed input makes
  it end by the exception of the decoding.
\<close>

theorem malformed_input_cleanup:
  assumes "decode_error x = Some e"
  shows "snd (handle_client s c u (before @ x # rest)) =
         snd (handle_client s c u (before @ [Eof])) \<and>
    lookup (snd (handle_client s c u (before @ x # rest))) u = None \<and>
    (recv_loop (register s u c) u before = (NoInput, s1) \<longrightarrow>
       handle_client s c u (before @ x # rest) = finally_block s1 u c (Some e) \<and>
       handle_client s c u (before @ [Eof]) = finally_block s1 u c None \<and>
       fst (handle_client s c u (before @ x # rest)) \<noteq> Returned \<and>
       (fst (handle_client s c u (before @ [Eof])) = Returned \<longrightarrow>
          fst (handle_client s c u (before @ x # rest)) = Raised e))"
proof -
  have 1: "snd (handle_client s c u (before @ x # rest)) =
         snd (handle_client s c u (before @ [Eof]))"
    using assms by (rule malformed_same_state)
  have "lookup (snd (handle_client s c u (before @ [Eof]))) u = None"
    using lookup_handle_client_closed[of s u c "before @ [Eof]"
        "fst (recv_loop (register s u c) u (before @ [Eof]))"
        "snd (recv_loop (register s u c) u (before @ [Eof]))"]
      recv_loop_Eof_last[of "register s u c" u before]
    by simp
  then have 2: "lookup (snd (handle_client s c u (before @ x # rest))) u = None"
    by (simp add: 1)
  have 3: "recv_loop (register s u c) u before = (NoInput, s1) \<longrightarrow>
       handle_client s c u (before @ x # rest) = finally_block s1 u c (Some e) \<and>
       handle_client s c u (before @ [Eof]) = finally_block s1 u c None \<and>
       fst (handle_client s c u (before @ x # rest)) \<noteq> Returned \<and>
       (fst (handle_client s c u (before @ [Eof])) = Returned \<longrightarrow>
          fst (handle_client s c u (before @ x # rest)) = Raised e)"
  proof
    assume l: "recv_loop (register s u c) u before = (NoInput, s1)"
    note h = handle_client_decode_error[OF assms l]
    have "fst (finally_block s1 u c None) = Returned \<longrightarrow> fst (finally_block s1 u c (Some e)) = Raised e"
      by (cases "broadcast_system_message (close (deregister s1 u) c) (u @ '' has left the chat.'')")
        (simp add: finally_block_def split: option.splits)
    then show "handle_client s c u (before @ x # rest) = finally_block s1 u c (Some e) \<and>
       handle_client s c u (before @ [Eof]) = finally_block s1 u c None \<and>
       fst (handle_client s c u (before @ x # rest)) \<noteq> Returned \<and>
       (fst (handle_client s c u (before @ [Eof])) = Returned \<longrightarrow>
          fst (handle_client s c u (before @ x # rest)) = Raised e)"
      by (simp add: h fst_finally_block_pending)
  qed
  show ?thesis using 1 2 3 by blast
qed

theorem malformed_input_cleanup_witness:
  "snd (handle_client demo 4 ''dan'' [Object (envelope_of ''create'' ''ops'' ''''), NotJson])
     = snd (handle_client demo 4 ''dan'' [Object (envelope_of ''create'' ''ops'' ''''), Eof]) \<and>
   lookup (snd (handle_client demo 4 ''dan'' [Object (envelope_of ''create'' ''ops'' ''''), NotJson]))
     ''dan'' = None \<and>
   fst (handle_client demo 4 ''dan'' [Object (envelope_of ''create'' ''ops'' ''''), NotJson])
     = Raised JSONDecodeError \<and>
   wire (snd (handle_client demo 4 ''dan'' [Object (envelope_of ''create'' ''ops'' ''''), NotJson])) 2
     = [message_to_json ''system'' ''SERVER'' ''ALL'' ''dan has left the chat.''] \<and>
   snd (handle_client demo 4 ''dan'' [Object [''status'' \<mapsto> ''create'']])
     = snd (handle_client demo 4 ''dan'' [Eof])"
proof -
  have l: "recv_loop (register demo ''dan'' 4) ''dan'' [Object (envelope_of ''create'' ''ops'' '''')]
      = (NoInput, demo\<lparr>clients := clients demo @ [(''dan'', 4)],
                        groups := (groups demo)(''ops'' \<mapsto> [''dan'']),
                        wire := (wire demo)(4 := [message_to_json ''system'' ''SERVER'' ''dan''
                                   ''Group ops created successfully.''])\<rparr>)"
    by (simp add: demo_def register_def envelope_of_def process_message_def create_group_def
        send_system_message_def sendall_def)
  have r: "fst (handle_client demo 4 ''dan'' ([Object (envelope_of ''create'' ''ops'' '''')] @ [Eof]))
      = Returned"
    by (simp add: handle_client_def demo_def register_def envelope_of_def process_message_def
        create_group_def send_system_message_def sendall_def finally_block_def deregister_def
        close_def broadcast_system_message_def)
  have w: "wire (snd (handle_client demo 4 ''dan'' ([Object (envelope_of ''create'' ''ops'' '''')] @ [Eof]))) 2
      = [message_to_json ''system'' ''SERVER'' ''ALL'' ''dan has left the chat.'']"
    by (simp add: handle_client_def demo_def register_def envelope_of_def process_message_def
        create_group_def send_system_message_def sendall_def finally_block_def deregister_def
        close_def broadcast_system_message_def)
  have d1: "decode_error NotJson = Some JSONDecodeError" by simp
  have d2: "decode_error (Object [''status'' \<mapsto> ''create'']) = Some KeyError" by simp
  note t = malformed_input_cleanup[OF d1, of demo 4 "''dan''"
      "[Object (envelope_of ''create'' ''ops'' '''')]" "[]" _]
  note t1 = t[THEN conjunct1]
  note t2 = t[THEN conjunct2, THEN conjunct1]
  note t3 = t[THEN conjunct2, THEN conjunct2, rule_format, OF l]
  note t34 = t3[THEN conjunct2, THEN conjunct2, THEN conjunct2, rule_format, OF r]
  note k = malformed_input_cleanup[OF d2, of demo 4 "''dan''" "[]" "[]", THEN conjunct1]
  show ?thesis
    using t1 t2 t34 w k by simp
qed

section \<open>Leaving\<close>



section \<open>Unrecognised kinds\<close>



section \<open>Notices to an identity that is not registered\<close>

text \<open>
  C10. \<^verbatim>\<open>send_system_message\<close> to an identity that is not in the registry raises
  nothing and returns the state it was given. So for a sender who is not registered, the
  not-found notice of a private message, the error of a group message and the reports of
  \<open>create\<close> and \<open>join\<close> are all dropped: no socket is written, and the state changes
  only by what \<open>create\<close> and \<open>join\<close> do to the directory.
\<close>

theorem notice_to_absent_identity:
  assumes "lookup s user = None"
  shows
   "send_system_message s user txt = (None, s) \<and>
    (lookup s target = None \<longrightarrow> send_private_message s user target body = (None, s)) \<and>
    (groups s g = None \<or> (\<exists>ms. groups s g = Some ms \<and> user \<notin> set ms) \<longrightarrow>
       send_group_message s user g body = (None, s)) \<and>
    create_group s user g =
      (None, if groups s g = None then s\<lparr>groups := (groups s)(g \<mapsto> [user])\<rparr> else s) \<and>
    join_group s user g =
      (None, case groups s g of None \<Rightarrow> s
             | Some ms \<Rightarrow> if user \<in> set ms then s else s\<lparr>groups := (groups s)(g \<mapsto> ms @ [user])\<rparr>)"
proof -
  have a: "\<And>m txt. send_system_message (s\<lparr>groups := m\<rparr>) user txt = (None, s\<lparr>groups := m\<rparr>)"
    using assms by (simp add: send_system_message_absent)
  have b: "\<And>txt. send_system_message s user txt = (None, s)"
    using assms by (simp add: send_system_message_absent)
  have 2: "lookup s target = None \<longrightarrow> send_private_message s user target body = (None, s)"
    by (simp add: send_private_message_not_found b)
  have 3: "groups s g = None \<or> (\<exists>ms. groups s g = Some ms \<and> user \<notin> set ms) \<longrightarrow>
       send_group_message s user g body = (None, s)"
    using send_group_message_rejected[of s g user body] by (simp add: b)
  have 4: "create_group s user g =
      (None, if groups s g = None then s\<lparr>groups := (groups s)(g \<mapsto> [user])\<rparr> else s)"
    by (auto simp: create_group_new create_group_taken a b)
  have 5: "join_group s user g =
      (None, case groups s g of None \<Rightarrow> s
             | Some ms \<Rightarrow> if user \<in> set ms then s else s\<lparr>groups := (groups s)(g \<mapsto> ms @ [user])\<rparr>)"
    by (auto simp: join_group_absent join_group_member join_group_new a b split: option.splits)
  show ?thesis
    using b 2 3 4 5 by blast
qed

theorem notice_to_absent_identity_witness:
  "lookup demo ''erin'' = None \<and>
   send_system_message demo ''erin'' ''hello'' = (None, demo) \<and>
   send_private_message demo ''erin'' ''zoe'' ''hi'' = (None, demo) \<and>
   send_group_message demo ''erin'' ''proj'' ''hi'' = (None, demo) \<and>
   create_group demo ''erin'' ''proj'' = (None, demo) \<and>
   create_group demo ''erin'' ''ops'' = (None, demo\<lparr>groups := (groups demo)(''ops'' \<mapsto> [''erin''])\<rparr>) \<and>
   join_group demo ''erin'' ''ops'' = (None, demo)"
  using notice_to_absent_identity[of demo "''erin''" "''hello''" "''zoe''" "''hi''" "''proj''"]
    notice_to_absent_identity[of demo "''erin''" "''hello''" "''zoe''" "''hi''" "''ops''"]
  by (simp add: demo_def lookup_def)

end
